theory Spec2Isabelle
  imports Main
begin

section \<open>querySelectorPerpetual: values, errors and the DOM\<close>

text \<open>
  The model follows \<^verbatim>\<open>src/index.js\<close>. JavaScript values that can reach the operation
  pipeline are the constructors of \<open>jsval\<close>. A function value carries an identity and its
  \<^verbatim>\<open>length\<close> property (the number of declared parameters); it has no indexed properties.
  What a user function returns (or throws) when called is given by the environment.
\<close>

datatype jsval =
    Undefined
  | Null
  | Boolean bool
  | Number int
  | String string
  | ElementRef nat
  | Array "jsval list"
  | Function nat nat

datatype error = TypeError | SyntaxError | Thrown jsval

text \<open>
  The environment: \<open>callFn\<close> interprets a call of the user function with the given
  identity on an argument list; \<open>engineSort\<close> is the engine's sorting of an array of two
  or more elements with the given comparator (the order of comparisons is
  implementation-defined and no array of that size arises in the pipeline, see
  \<open>reduceOps_short\<close> below).
\<close>

record env =
  callFn :: "nat \<Rightarrow> jsval list \<Rightarrow> error + jsval"
  engineSort :: "jsval \<Rightarrow> jsval list \<Rightarrow> error + jsval list"

text \<open>A log entry: the identity of the user function called and its arguments.\<close>

type_synonym calllog = "(nat \<times> jsval list) list"

text \<open>
  DOM nodes. An element has an identity and children; text and comment nodes have an
  identity only. \<open>nodeType\<close> gives the DOM constants (\<^verbatim>\<open>ELEMENT_NODE\<close> is 1).
\<close>

datatype node = Element nat "node list" | Text nat | Comment nat

definition ELEMENT_NODE :: nat where
  "ELEMENT_NODE = 1"

fun nodeType :: "node \<Rightarrow> nat" where
  "nodeType (Element e cs) = 1"
| "nodeType (Text t) = 3"
| "nodeType (Comment c) = 8"

fun nodeId :: "node \<Rightarrow> nat" where
  "nodeId (Element e cs) = e"
| "nodeId (Text t) = t"
| "nodeId (Comment c) = c"

text \<open>A reference to a node that can be a scope root: the document or an element.\<close>

datatype noderef = TheDocument | AnElement nat

text \<open>
  A snapshot of the document as the platform presents it when the code runs:
  \<open>docBody\<close> is what \<^verbatim>\<open>document.querySelector("body")\<close> returns (\<open>None\<close> for null),
  \<open>docChildren\<close> the children of the document, \<open>selValid\<close> tells whether the selector
  parses (the platform throws a SyntaxError otherwise) and \<open>selMatches\<close> whether the
  element with the given identity matches it.
\<close>

record dom =
  docBody :: "nat option"
  docChildren :: "node list"
  selValid :: "string \<Rightarrow> bool"
  selMatches :: "string \<Rightarrow> nat \<Rightarrow> bool"

text \<open>Elements of a forest in document order (preorder).\<close>

fun elementsOf :: "node \<Rightarrow> nat list" where
  "elementsOf (Element e cs) = e # concat (map elementsOf cs)"
| "elementsOf (Text t) = []"
| "elementsOf (Comment c) = []"

definition elementsIn :: "node list \<Rightarrow> nat list" where
  "elementsIn ns = concat (map elementsOf ns)"

text \<open>\<^verbatim>\<open>document.querySelectorAll(selector)\<close> for a selector that parses.\<close>

definition querySelectorAll :: "dom \<Rightarrow> string \<Rightarrow> nat list" where
  "querySelectorAll d sel = filter (selMatches d sel) (elementsIn (docChildren d))"

section \<open>The operation pipeline\<close>

datatype opname = OpForEach | OpMap | OpFilter | OpSort

text \<open>The accumulator of the reduce: the initial array, or what an array method returned.\<close>

datatype acc = AccUndefined | AccArray "jsval list"

text \<open>
  \<^verbatim>\<open>Function.prototype.apply(thisArg, argArray)\<close> turns its second argument into the
  argument list: none for undefined or null, a TypeError for any other primitive, the
  elements of an array, and for any other object the properties \<^verbatim>\<open>0 .. length - 1\<close>.
  A function object has \<^verbatim>\<open>length\<close> declared parameters and no indexed property, so it
  yields that many \<^verbatim>\<open>undefined\<close>; an element is taken to have no \<^verbatim>\<open>length\<close> property.
\<close>

fun createListFromArrayLike :: "jsval \<Rightarrow> error + jsval list" where
  "createListFromArrayLike Undefined = Inr []"
| "createListFromArrayLike Null = Inr []"
| "createListFromArrayLike (Boolean b) = Inl TypeError"
| "createListFromArrayLike (Number n) = Inl TypeError"
| "createListFromArrayLike (String s) = Inl TypeError"
| "createListFromArrayLike (ElementRef e) = Inr []"
| "createListFromArrayLike (Array xs) = Inr xs"
| "createListFromArrayLike (Function f n) = Inr (replicate n Undefined)"

fun toBoolean :: "jsval \<Rightarrow> bool" where
  "toBoolean Undefined = False"
| "toBoolean Null = False"
| "toBoolean (Boolean b) = b"
| "toBoolean (Number n) = (n \<noteq> 0)"
| "toBoolean (String s) = (s \<noteq> [])"
| "toBoolean (ElementRef e) = True"
| "toBoolean (Array xs) = True"
| "toBoolean (Function f n) = True"

text \<open>
  The loop shared by forEach, map and filter: the callback is called with
  (element, index, array) for each element in order; a throw stops the loop.
\<close>

fun callEach :: "env \<Rightarrow> nat \<Rightarrow> jsval list \<Rightarrow> nat \<Rightarrow> jsval list \<Rightarrow> (error + jsval list) \<times> calllog" where
  "callEach en f whole i [] = (Inr [], [])"
| "callEach en f whole i (x # xs) =
     (case callFn en f [x, Number (int i), Array whole] of
        Inl e \<Rightarrow> (Inl e, [(f, [x, Number (int i), Array whole])])
      | Inr v \<Rightarrow>
          (case callEach en f whole (Suc i) xs of
             (Inl e, l) \<Rightarrow> (Inl e, (f, [x, Number (int i), Array whole]) # l)
           | (Inr vs, l) \<Rightarrow> (Inr (v # vs), (f, [x, Number (int i), Array whole]) # l)))"

text \<open>The first argument of a call, \<^verbatim>\<open>undefined\<close> when there is none.\<close>

fun firstArg :: "jsval list \<Rightarrow> jsval" where
  "firstArg [] = Undefined"
| "firstArg (a # as) = a"

text \<open>
  \<^verbatim>\<open>Array.prototype[name]\<close> called with \<open>this\<close> and an argument list. Every method
  throws a TypeError on \<^verbatim>\<open>this = undefined\<close>; forEach, map and filter throw one when the
  callback is not callable; sort throws one when the comparator is neither undefined nor
  callable and returns its \<open>this\<close>.
\<close>

fun arrayMethod :: "env \<Rightarrow> opname \<Rightarrow> acc \<Rightarrow> jsval list \<Rightarrow> (error + acc) \<times> calllog" where
  "arrayMethod en nm AccUndefined args = (Inl TypeError, [])"
| "arrayMethod en OpForEach (AccArray xs) args =
     (case firstArg args of
        Function f n \<Rightarrow>
          (case callEach en f xs 0 xs of
             (Inl e, l) \<Rightarrow> (Inl e, l)
           | (Inr vs, l) \<Rightarrow> (Inr AccUndefined, l))
      | _ \<Rightarrow> (Inl TypeError, []))"
| "arrayMethod en OpMap (AccArray xs) args =
     (case firstArg args of
        Function f n \<Rightarrow>
          (case callEach en f xs 0 xs of
             (Inl e, l) \<Rightarrow> (Inl e, l)
           | (Inr vs, l) \<Rightarrow> (Inr (AccArray vs), l))
      | _ \<Rightarrow> (Inl TypeError, []))"
| "arrayMethod en OpFilter (AccArray xs) args =
     (case firstArg args of
        Function f n \<Rightarrow>
          (case callEach en f xs 0 xs of
             (Inl e, l) \<Rightarrow> (Inl e, l)
           | (Inr vs, l) \<Rightarrow>
               (Inr (AccArray (map fst (filter (\<lambda>p. toBoolean (snd p)) (zip xs vs)))), l))
      | _ \<Rightarrow> (Inl TypeError, []))"
| "arrayMethod en OpSort (AccArray xs) args =
     (case firstArg args of
        Undefined \<Rightarrow>
          (if length xs < 2 then (Inr (AccArray xs), [])
           else (map_sum id AccArray (engineSort en Undefined xs), []))
      | Function f n \<Rightarrow>
          (if length xs < 2 then (Inr (AccArray xs), [])
           else (map_sum id AccArray (engineSort en (Function f n) xs), []))
      | _ \<Rightarrow> (Inl TypeError, []))"

text \<open>
  The reduce of \<open>applyOperations\<close> (index.js lines 62-68): for each operation in order,
  \<^verbatim>\<open>Array.prototype[operation.name].apply(prev, operation.func)\<close>. The second argument
  of \<^verbatim>\<open>apply\<close> is the argument list, so \<open>operation.func\<close> is read as an array-like.
\<close>

fun reduceOps :: "env \<Rightarrow> (opname \<times> jsval) list \<Rightarrow> acc \<Rightarrow> (error + acc) \<times> calllog" where
  "reduceOps en [] prev = (Inr prev, [])"
| "reduceOps en (operation # ops) prev =
     (case createListFromArrayLike (snd operation) of
        Inl e \<Rightarrow> (Inl e, [])
      | Inr args \<Rightarrow>
          (case arrayMethod en (fst operation) prev args of
             (Inl e, l) \<Rightarrow> (Inl e, l)
           | (Inr nxt, l) \<Rightarrow>
               (case reduceOps en ops nxt of (r, l') \<Rightarrow> (r, l @ l'))))"

text \<open>
  \<open>applyOperations\<close> (lines 53-69) starts the reduce from the one-element array holding
  the element and discards the result.
\<close>

definition applyOperations :: "env \<Rightarrow> (opname \<times> jsval) list \<Rightarrow> nat \<Rightarrow> (error + unit) \<times> calllog" where
  "applyOperations en operations element =
     (case reduceOps en operations (AccArray [ElementRef element]) of
        (r, l) \<Rightarrow> (map_sum id (\<lambda>a. ()) r, l))"

text \<open>
  The pipeline as the specification words it, for comparison: each operation is the
  array method of its kind applied to the previous output with the user-supplied
  function as the callback, that is \<^verbatim>\<open>prev[name](func)\<close>.
\<close>

fun specPipeline :: "env \<Rightarrow> (opname \<times> jsval) list \<Rightarrow> acc \<Rightarrow> (error + acc) \<times> calllog" where
  "specPipeline en [] prev = (Inr prev, [])"
| "specPipeline en (operation # ops) prev =
     (case arrayMethod en (fst operation) prev [snd operation] of
        (Inl e, l) \<Rightarrow> (Inl e, l)
      | (Inr nxt, l) \<Rightarrow>
          (case specPipeline en ops nxt of (r, l') \<Rightarrow> (r, l @ l')))"

section \<open>Registrations, the shared observer and the state\<close>

text \<open>
  The options object a caller passes: a property that is absent is \<open>None\<close>.
\<close>

record options_obj =
  optMatchExisting :: "bool option"
  optMatchReappearance :: "bool option"
  optRootElement :: "noderef option"

definition emptyObject :: options_obj where
  "emptyObject = \<lparr>optMatchExisting = None, optMatchReappearance = None, optRootElement = None\<rparr>"

text \<open>
  The variables one call of \<^verbatim>\<open>querySelectorPerpetual\<close> creates and its closures share:
  the selector, the merged options (lines 16-24), the WeakMap \<open>elementInvocationMap\<close>
  (line 14) and the array \<open>operations\<close> (line 32). \<open>target\<close> is \<open>None\<close> when
  \<^verbatim>\<open>options.rootElement\<close> is null (a document without a body and no explicit root).
\<close>

record registration =
  selector :: string
  matchExisting :: bool
  matchReappearance :: bool
  target :: "noderef option"
  elementInvocationMap :: "nat \<rightharpoonup> bool"
  operations :: "(opname \<times> jsval) list"

text \<open>
  The MutationObserver stored in \<^verbatim>\<open>querySelectorPerpetual.observer\<close>: its callback is a
  closure of the call that created it (\<open>obsOwner\<close> is that call's registration), and
  \<open>obsTargets\<close> lists the \<^verbatim>\<open>observe\<close> calls made on it as (target, childList, subtree).
\<close>

record observer_obj =
  obsOwner :: nat
  obsTargets :: "(noderef \<times> bool \<times> bool) list"

text \<open>
  The state: the function property \<open>observer\<close>, the registrations created so far
  (a store indexed by the order of the calls, \<open>nclosures\<close> of them allocated), the heap
  of options objects that callers hold, and three records kept for the statements: how
  many observers were constructed, the calls of \<open>applyOperations\<close> as
  (registration, element), and the calls of user functions.
\<close>

record state =
  observer :: "observer_obj option"
  observersCreated :: nat
  closures :: "nat \<Rightarrow> registration"
  nclosures :: nat
  heap :: "nat \<Rightarrow> options_obj"
  pipelineRuns :: "(nat \<times> nat) list"
  callbackLog :: calllog

definition noRegistration :: registration where
  "noRegistration = \<lparr>selector = [], matchExisting = False, matchReappearance = False,
     target = None, elementInvocationMap = Map.empty, operations = []\<rparr>"

definition initState :: state where
  "initState = \<lparr>observer = None, observersCreated = 0, closures = (\<lambda>i. noRegistration),
     nclosures = 0, heap = (\<lambda>a. emptyObject), pipelineRuns = [], callbackLog = []\<rparr>"

text \<open>\<^verbatim>\<open>Array.prototype.forEach\<close> over a list with a callback that may throw.\<close>

fun forEachM :: "('a \<Rightarrow> state \<Rightarrow> (error + unit) \<times> state) \<Rightarrow> 'a list \<Rightarrow> state \<Rightarrow> (error + unit) \<times> state" where
  "forEachM f [] s = (Inr (), s)"
| "forEachM f (x # xs) s =
     (case f x s of
        (Inl e, s') \<Rightarrow> (Inl e, s')
      | (Inr u, s') \<Rightarrow> forEachM f xs s')"

text \<open>\<open>addOperation\<close> (lines 40-42) of registration \<open>rid\<close>.\<close>

definition addOperation :: "nat \<Rightarrow> opname \<Rightarrow> jsval \<Rightarrow> state \<Rightarrow> state" where
  "addOperation rid name func s =
     s\<lparr>closures := (closures s)(rid :=
          (closures s rid)\<lparr>operations := operations (closures s rid) @ [(name, func)]\<rparr>)\<rparr>"

text \<open>
  Process one element for registration \<open>rid\<close>: the seen-set check, the marking and the
  call of \<open>applyOperations\<close>, written twice in the source with the same text (lines
  99-108 in the mutation callback, lines 140-149 in the scan of existing elements).
\<close>

definition processElement :: "env \<Rightarrow> nat \<Rightarrow> nat \<Rightarrow> state \<Rightarrow> (error + unit) \<times> state" where
  "processElement en rid element s =
     (if \<not> matchReappearance (closures s rid)
          \<and> elementInvocationMap (closures s rid) element = Some True
      then (Inr (), s)
      else
        (case applyOperations en (operations (closures s rid)) element of
           (r, l) \<Rightarrow>
             (r, s\<lparr>closures := (closures s)(rid :=
                      (closures s rid)\<lparr>elementInvocationMap :=
                         (elementInvocationMap (closures s rid))(element \<mapsto> True)\<rparr>),
                    pipelineRuns := pipelineRuns s @ [(rid, element)],
                    callbackLog := callbackLog s @ l\<rparr>)))"

text \<open>
  The function called for each added node (lines 85-110): an element node that matches
  the selector is processed; \<^verbatim>\<open>node.matches\<close> throws on a selector that does not parse.
\<close>

definition checkAddedNode :: "env \<Rightarrow> nat \<Rightarrow> dom \<Rightarrow> node \<Rightarrow> state \<Rightarrow> (error + unit) \<times> state" where
  "checkAddedNode en rid d nd s =
     (if nodeType nd = ELEMENT_NODE
      then (if \<not> selValid d (selector (closures s rid)) then (Inl SyntaxError, s)
            else if selMatches d (selector (closures s rid)) (nodeId nd)
                 then processElement en rid (nodeId nd) s
                 else (Inr (), s))
      else (Inr (), s))"

record mutationRecord =
  addedNodes :: "node list"
  removedNodes :: "node list"

text \<open>
  The callback of the observer (lines 78-112), run on a batch of mutation records. It
  is the closure of the call that created the observer, so it reads that call's
  selector, options, seen-set and operations. Without an observer there is no callback.
\<close>

definition mutationCallback :: "env \<Rightarrow> dom \<Rightarrow> mutationRecord list \<Rightarrow> state \<Rightarrow> (error + unit) \<times> state" where
  "mutationCallback en d mutations s =
     (case observer s of
        None \<Rightarrow> (Inr (), s)
      | Some ob \<Rightarrow>
          forEachM (\<lambda>mutation. forEachM (checkAddedNode en (obsOwner ob) d) (addedNodes mutation))
            mutations s)"

text \<open>
  Lines 74-121: the first call that finds no observer constructs one and observes its
  own target; \<^verbatim>\<open>observe\<close> throws a TypeError when the target is not a node, after the
  observer was stored.
\<close>

definition installObserver :: "nat \<Rightarrow> state \<Rightarrow> (error + unit) \<times> state" where
  "installObserver rid s =
     (case observer s of
        Some ob \<Rightarrow> (Inr (), s)
      | None \<Rightarrow>
          (case target (closures s rid) of
             None \<Rightarrow>
               (Inl TypeError,
                s\<lparr>observer := Some \<lparr>obsOwner = rid, obsTargets = []\<rparr>,
                  observersCreated := Suc (observersCreated s)\<rparr>)
           | Some t \<Rightarrow>
               (Inr (),
                s\<lparr>observer := Some \<lparr>obsOwner = rid, obsTargets = [(t, True, True)]\<rparr>,
                  observersCreated := Suc (observersCreated s)\<rparr>)))"

text \<open>
  Lines 126-151: the scan of existing elements, over
  \<^verbatim>\<open>document.querySelectorAll(selector)\<close>.
\<close>

definition scanExisting :: "env \<Rightarrow> nat \<Rightarrow> dom \<Rightarrow> state \<Rightarrow> (error + unit) \<times> state" where
  "scanExisting en rid d s =
     (if matchExisting (closures s rid)
      then (if \<not> selValid d (selector (closures s rid)) then (Inl SyntaxError, s)
            else forEachM (processElement en rid)
                   (querySelectorAll d (selector (closures s rid))) s)
      else (Inr (), s))"

text \<open>
  Lines 11-32: the variables of a new call. \<^verbatim>\<open>Object.assign(defaultOptions, options || {})\<close>
  lets every property present in the caller's object override the default.
\<close>

definition newRegistration :: "dom \<Rightarrow> string \<Rightarrow> options_obj option \<Rightarrow> registration" where
  "newRegistration d sel options =
     (let given = (case options of None \<Rightarrow> emptyObject | Some ob \<Rightarrow> ob) in
      \<lparr>selector = sel,
       matchExisting = (case optMatchExisting given of None \<Rightarrow> True | Some b \<Rightarrow> b),
       matchReappearance = (case optMatchReappearance given of None \<Rightarrow> False | Some b \<Rightarrow> b),
       target = (case optRootElement given of
                   None \<Rightarrow> map_option AnElement (docBody d)
                 | Some r \<Rightarrow> Some r),
       elementInvocationMap = Map.empty,
       operations = []\<rparr>)"

text \<open>
  \<open>querySelectorPerpetual\<close> (lines 11-195). The result is the handle, identified by the
  registration whose \<open>operations\<close> its methods extend.
\<close>

definition querySelectorPerpetual :: "env \<Rightarrow> dom \<Rightarrow> string \<Rightarrow> options_obj option \<Rightarrow> state \<Rightarrow> (error + nat) \<times> state" where
  "querySelectorPerpetual en d sel options s =
     (let rid = nclosures s;
          s1 = s\<lparr>closures := (closures s)(rid := newRegistration d sel options),
                 nclosures := Suc rid\<rparr>
      in case installObserver rid s1 of
           (Inl e, s2) \<Rightarrow> (Inl e, s2)
         | (Inr u, s2) \<Rightarrow>
             (case scanExisting en rid d s2 of
                (Inl e, s3) \<Rightarrow> (Inl e, s3)
              | (Inr u', s3) \<Rightarrow> (Inr rid, s3)))"

text \<open>
  The methods of the returned object (lines 154-193), by property name. Calling a
  property that the object does not have throws a TypeError.
\<close>

definition handleMethod :: "string \<Rightarrow> opname option" where
  "handleMethod m =
     (if m = ''forEach'' then Some OpForEach
      else if m = ''map'' then Some OpMap
      else if m = ''filter'' then Some OpFilter
      else if m = ''sort'' then Some OpSort
      else None)"

definition callHandle :: "nat \<Rightarrow> string \<Rightarrow> jsval \<Rightarrow> state \<Rightarrow> (error + nat) \<times> state" where
  "callHandle h m func s =
     (case handleMethod m of
        None \<Rightarrow> (Inl TypeError, s)
      | Some name \<Rightarrow> (Inr h, addOperation h name func s))"

text \<open>
  The methods installed on \<^verbatim>\<open>Document.prototype\<close> and \<^verbatim>\<open>Element.prototype\<close> (lines
  199-205): \<^verbatim>\<open>Object.assign(options || {}, { rootElement: this })\<close> writes into the
  caller's object when there is one, and the result is passed on. \<open>options\<close> is the
  address of the caller's object, \<open>None\<close> for undefined.
\<close>

definition protoQuerySelectorPerpetual :: "env \<Rightarrow> dom \<Rightarrow> noderef \<Rightarrow> string \<Rightarrow> nat option \<Rightarrow> state \<Rightarrow> (error + nat) \<times> state" where
  "protoQuerySelectorPerpetual en d this sel options s =
     (case options of
        None \<Rightarrow>
          querySelectorPerpetual en d sel (Some (emptyObject\<lparr>optRootElement := Some this\<rparr>)) s
      | Some a \<Rightarrow>
          (let s1 = s\<lparr>heap := (heap s)(a := (heap s a)\<lparr>optRootElement := Some this\<rparr>)\<rparr>
           in querySelectorPerpetual en d sel (Some (heap s1 a)) s1))"

section \<open>Runs\<close>

text \<open>
  What can happen to the state: a call of the function, a call of a prototype method,
  a call of a method of a handle that a call returned, and the delivery of a batch of
  mutation records to the observer. An exception leaves the state as it was when thrown.
\<close>

datatype event =
    Register dom string "options_obj option"
  | ProtoRegister dom noderef string "nat option"
  | CallHandle nat string jsval
  | Mutations dom "mutationRecord list"

fun step :: "env \<Rightarrow> state \<Rightarrow> event \<Rightarrow> state" where
  "step en s (Register d sel options) = snd (querySelectorPerpetual en d sel options s)"
| "step en s (ProtoRegister d this sel options) = snd (protoQuerySelectorPerpetual en d this sel options s)"
| "step en s (CallHandle h m func) =
     (if h < nclosures s then snd (callHandle h m func s) else s)"
| "step en s (Mutations d mutations) = snd (mutationCallback en d mutations s)"

definition run :: "env \<Rightarrow> event list \<Rightarrow> state \<Rightarrow> state" where
  "run en evs s = foldl (step en) s evs"

text \<open>The elements passed to the pipeline of a registration, in order.\<close>

definition processedBy :: "nat \<Rightarrow> state \<Rightarrow> nat list" where
  "processedBy rid s = map snd (filter (\<lambda>p. fst p = rid) (pipelineRuns s))"

text \<open>
  The scan as the specification words it, for comparison: the elements matching the
  selector under the scope root, in document order. The descendants of an element are
  the elements below it, the element itself excluded.
\<close>

fun descendantsIn :: "nat \<Rightarrow> node \<Rightarrow> nat list" where
  "descendantsIn r (Element e cs) =
     (if e = r then concat (map elementsOf cs) else concat (map (descendantsIn r) cs))"
| "descendantsIn r (Text t) = []"
| "descendantsIn r (Comment c) = []"

definition scopedQuery :: "dom \<Rightarrow> noderef \<Rightarrow> string \<Rightarrow> nat list" where
  "scopedQuery d root sel =
     (case root of
        TheDocument \<Rightarrow> filter (selMatches d sel) (elementsIn (docChildren d))
      | AnElement r \<Rightarrow>
          filter (selMatches d sel) (concat (map (descendantsIn r) (docChildren d))))"

section \<open>Auxiliary definitions and example inputs\<close>

text \<open>
  What processing elements for registration \<open>rid\<close> leaves alone: everything except that
  registration's seen-set and the records of pipeline runs and callback calls.
\<close>

definition unchangedBy :: "nat \<Rightarrow> state \<Rightarrow> state \<Rightarrow> bool" where
  "unchangedBy rid s s' \<longleftrightarrow>
     observer s' = observer s \<and> observersCreated s' = observersCreated s
     \<and> nclosures s' = nclosures s \<and> heap s' = heap s
     \<and> (\<forall>j. j \<noteq> rid \<longrightarrow> closures s' j = closures s j)
     \<and> selector (closures s' rid) = selector (closures s rid)
     \<and> matchExisting (closures s' rid) = matchExisting (closures s rid)
     \<and> matchReappearance (closures s' rid) = matchReappearance (closures s rid)
     \<and> target (closures s' rid) = target (closures s rid)
     \<and> operations (closures s' rid) = operations (closures s rid)"

text \<open>
  The document of \<^verbatim>\<open>src/test.js\<close>: a container (element 0) in the body (element 10) of
  the root element (11), holding two elements of class \<^verbatim>\<open>item\<close> (1 and 2) with the texts
  "Item 1" and "Item 2". Elements 3 and 4 are elements of class \<^verbatim>\<open>item\<close> that are not
  in the document yet. User function 0 returns the text of its first argument.
\<close>

definition itemsDom :: dom where
  "itemsDom = \<lparr>docBody = Some 10,
     docChildren = [Element 11 [Element 10 [Element 0 [Element 1 [Text 21], Element 2 [Text 22]]]]],
     selValid = (\<lambda>sel. True),
     selMatches = (\<lambda>sel e. sel = ''.item'' \<and> (e = 1 \<or> e = 2 \<or> e = 3 \<or> e = 4))\<rparr>"

definition itemsEnv :: env where
  "itemsEnv = \<lparr>callFn = (\<lambda>f args. if firstArg args = ElementRef 1 then Inr (String ''Item 1'')
                                   else if firstArg args = ElementRef 2 then Inr (String ''Item 2'')
                                   else Inr (String [])),
               engineSort = (\<lambda>c xs. Inr xs)\<rparr>"

text \<open>
  States that runs reach: the registrations not yet created are untouched, and the
  observer, when there is one, belongs to a registration that was created.
\<close>

definition wellFormed :: "state \<Rightarrow> bool" where
  "wellFormed s \<longleftrightarrow>
     (\<forall>j. nclosures s \<le> j \<longrightarrow> closures s j = noRegistration)
     \<and> (\<forall>ob. observer s = Some ob \<longrightarrow> obsOwner ob < nclosures s)"

text \<open>
  Element \<open>e\<close> is marked seen for registration \<open>rid\<close>, whose \<open>matchReappearance\<close> is \<open>b\<close>,
  and when \<open>b\<close> is false the pipeline of \<open>rid\<close> has run on \<open>e\<close> exactly \<open>c\<close> times.
\<close>

definition keeps :: "nat \<Rightarrow> nat \<Rightarrow> bool \<Rightarrow> nat \<Rightarrow> state \<Rightarrow> bool" where
  "keeps rid e b c s \<longleftrightarrow>
     elementInvocationMap (closures s rid) e = Some True
     \<and> matchReappearance (closures s rid) = b
     \<and> (\<not> b \<longrightarrow> count_list (pipelineRuns s) (rid, e) = c)"



definition twoRegistrations :: state where
  "twoRegistrations = run itemsEnv [Register itemsDom ''.item'' None, Register itemsDom ''.item'' None] initState"

definition itemsObserver :: observer_obj where
  "itemsObserver = \<lparr>obsOwner = 0, obsTargets = [(AnElement 10, True, True)]\<rparr>"


text \<open>
  The same document seen by a platform on which the selector \<^verbatim>\<open>[\<close> does not parse, and
  with a second class: element 5, not in the document yet, is of class \<^verbatim>\<open>note\<close>.
\<close>

definition notesDom :: dom where
  "notesDom = \<lparr>docBody = Some 10,
     docChildren = [Element 11 [Element 10 [Element 0 [Element 1 [Text 21], Element 2 [Text 22]]]]],
     selValid = (\<lambda>sel. sel \<noteq> ''[''),
     selMatches = (\<lambda>sel e. (sel = ''.item'' \<and> (e = 1 \<or> e = 2 \<or> e = 3 \<or> e = 4))
                            \<or> (sel = ''.note'' \<and> e = 5))\<rparr>"


definition notesState :: state where
  "notesState = run itemsEnv
     [Register notesDom ''.item'' None, Register notesDom ''.note'' None] initState"


section \<open>Properties of the pipeline\<close>

lemma firstArg_replicate [simp]: "firstArg (replicate n Undefined) = Undefined"
  by (cases n) simp_all

lemma applyOperations_Nil [simp]: "applyOperations en [] e = (Inr (), [])"
  by (simp add: applyOperations_def)

lemma callEach_length:
  "callEach en f w i xs = (Inr vs, l) \<Longrightarrow> length vs = length xs"
  by (induction xs arbitrary: i vs l) (auto split: sum.splits prod.splits)

lemma callEach_engineSort [simp]:
  "callEach (en\<lparr>engineSort := g\<rparr>) f w i xs = callEach en f w i xs"
  by (induction xs arbitrary: i) (auto split: sum.splits prod.splits)

lemma arrayMethod_engineSort:
  "length xs \<le> 1 \<Longrightarrow>
     arrayMethod (en\<lparr>engineSort := g\<rparr>) nm (AccArray xs) args = arrayMethod en nm (AccArray xs) args"
  by (cases nm) (auto split: jsval.splits)

lemma length_filter_zip:
  "length (map fst (filter P (zip xs vs))) \<le> length xs"
proof -
  have "length (filter P (zip xs vs)) \<le> length (zip xs vs)" by (rule length_filter_le)
  then show ?thesis by simp
qed

lemma arrayMethod_short:
  assumes "length xs \<le> 1" and "arrayMethod en nm (AccArray xs) args = (Inr (AccArray ys), l)"
  shows "length ys \<le> 1"
proof (cases nm)
  case OpForEach
  with assms show ?thesis by (auto split: jsval.splits prod.splits sum.splits)
next
  case OpMap
  with assms show ?thesis
    by (auto split: jsval.splits prod.splits sum.splits dest: callEach_length)
next
  case OpFilter
  with assms(2) obtain vs where "ys = map fst (filter (\<lambda>p. toBoolean (snd p)) (zip xs vs))"
    by (auto split: jsval.splits prod.splits sum.splits)
  with assms(1) length_filter_zip [of "\<lambda>p. toBoolean (snd p)" xs vs] show ?thesis by simp
next
  case OpSort
  with assms show ?thesis by (auto split: jsval.splits if_splits)
qed

lemma reduceOps_AccUndefined:
  "reduceOps en ops AccUndefined = (if ops = [] then (Inr AccUndefined, [])
      else (case createListFromArrayLike (snd (hd ops)) of Inl e \<Rightarrow> (Inl e, []) | Inr a \<Rightarrow> (Inl TypeError, [])))"
  by (cases ops) (auto split: sum.splits)

text \<open>
  Starting from an array of at most one element, every array in the pipeline has at
  most one element, so the engine's sort is never consulted.
\<close>

lemma reduceOps_short:
  "length xs \<le> 1 \<Longrightarrow>
     reduceOps (en\<lparr>engineSort := g\<rparr>) ops (AccArray xs) = reduceOps en ops (AccArray xs)"
proof (induction ops arbitrary: xs)
  case Nil
  then show ?case by simp
next
  case (Cons operation ops)
  show ?case
  proof (cases "createListFromArrayLike (snd operation)")
    case (Inl e)
    then show ?thesis by simp
  next
    case (Inr args)
    obtain r l where am: "arrayMethod en (fst operation) (AccArray xs) args = (r, l)"
      by (cases "arrayMethod en (fst operation) (AccArray xs) args")
    with Cons.prems have am': "arrayMethod (en\<lparr>engineSort := g\<rparr>) (fst operation) (AccArray xs) args = (r, l)"
      by (simp add: arrayMethod_engineSort)
    show ?thesis
    proof (cases r)
      case (Inl e)
      with Inr am am' show ?thesis by simp
    next
      case nxt: (Inr a)
      show ?thesis
      proof (cases a)
        case AccUndefined
        with Inr am am' nxt show ?thesis by (simp add: reduceOps_AccUndefined)
      next
        case (AccArray ys)
        with am nxt have "arrayMethod en (fst operation) (AccArray xs) args = (Inr (AccArray ys), l)"
          by simp
        from arrayMethod_short [OF Cons.prems this] have "length ys \<le> 1" .
        from Cons.IH [OF this] Inr am am' nxt AccArray show ?thesis by simp
      qed
    qed
  qed
qed

lemma applyOperations_engineSort:
  "applyOperations (en\<lparr>engineSort := g\<rparr>) ops e = applyOperations en ops e"
  by (simp add: applyOperations_def reduceOps_short)

text \<open>
  Claim C1. The claim: a processed element flows through the declared operations as a
  one-element array would flow through the array methods, with the user-supplied
  function as the callback. The code passes the user function as the argument list of
  \<^verbatim>\<open>apply\<close>, so the array method receives \<^verbatim>\<open>undefined\<close> as its callback: when the first
  operation is forEach, map or filter with a function of any length, the pipeline throws
  a TypeError and calls no user function; a lone sort ignores its comparator. The
  pipeline the claim describes calls the function once, on the element, index 0 and the
  one-element array.
\<close>

theorem applyOperations_drops_callback:
  "applyOperations en ((OpForEach, Function f n) # ops) e = (Inl TypeError, [])
   \<and> applyOperations en ((OpMap, Function f n) # ops) e = (Inl TypeError, [])
   \<and> applyOperations en ((OpFilter, Function f n) # ops) e = (Inl TypeError, [])
   \<and> applyOperations en [(OpSort, Function f n)] e = (Inr (), [])
   \<and> snd (specPipeline en [(OpForEach, Function f n)] (AccArray [ElementRef e]))
       = [(f, [ElementRef e, Number 0, Array [ElementRef e]])]"
  by (simp add: applyOperations_def split: sum.splits)

text \<open>
  Claim C2. The claim: with two existing elements of texts "Item 1" and "Item 2",
  registering and chaining \<^verbatim>\<open>.map(textOf)\<close> yields the two texts at once. In the code the
  scan of existing elements runs inside the call, before the caller can chain: both
  elements go through an empty pipeline, the chained \<^verbatim>\<open>map\<close> then returns the handle
  (not an array), and the function is never called.
\<close>

theorem chained_map_after_scan:
  "fst (querySelectorPerpetual itemsEnv itemsDom ''.item'' None initState) = Inr 0
   \<and> operations (closures (snd (querySelectorPerpetual itemsEnv itemsDom ''.item'' None initState)) 0) = []
   \<and> (case callHandle 0 ''map'' (Function 0 1)
              (snd (querySelectorPerpetual itemsEnv itemsDom ''.item'' None initState)) of
         (r, s) \<Rightarrow> r = Inr 0 \<and> callbackLog s = [] \<and> pipelineRuns s = [(0, 1), (0, 2)]
            \<and> operations (closures s 0) = [(OpMap, Function 0 1)])"
  by (simp add: callHandle_def handleMethod_def addOperation_def querySelectorPerpetual_def
       installObserver_def scanExisting_def newRegistration_def emptyObject_def initState_def
       itemsDom_def itemsEnv_def querySelectorAll_def elementsIn_def processElement_def Let_def)

text \<open>
  Claim C8. The handle has exactly the four methods forEach, map, filter and sort;
  reduce, every, some and find are not properties of it (calling one throws a
  TypeError and changes nothing). Each of the four appends one (kind, function) pair at
  the end of the operations of its registration and returns the same handle.
\<close>

theorem handle_surface:
  "dom handleMethod = {''forEach'', ''map'', ''filter'', ''sort''}
   \<and> handleMethod ''reduce'' = None \<and> handleMethod ''every'' = None
   \<and> handleMethod ''some'' = None \<and> handleMethod ''find'' = None
   \<and> callHandle h ''reduce'' func s = (Inl TypeError, s)
   \<and> fst (callHandle h ''forEach'' func s) = Inr h
   \<and> fst (callHandle h ''map'' func s) = Inr h
   \<and> fst (callHandle h ''filter'' func s) = Inr h
   \<and> fst (callHandle h ''sort'' func s) = Inr h
   \<and> operations (closures (snd (callHandle h ''forEach'' func s)) h)
        = operations (closures s h) @ [(OpForEach, func)]
   \<and> operations (closures (snd (callHandle h ''map'' func s)) h)
        = operations (closures s h) @ [(OpMap, func)]
   \<and> operations (closures (snd (callHandle h ''filter'' func s)) h)
        = operations (closures s h) @ [(OpFilter, func)]
   \<and> operations (closures (snd (callHandle h ''sort'' func s)) h)
        = operations (closures s h) @ [(OpSort, func)]"
proof -
  have "dom handleMethod = {''forEach'', ''map'', ''filter'', ''sort''}"
    by (auto simp: handleMethod_def dom_def split: if_splits)
  then show ?thesis
    by (simp add: handleMethod_def callHandle_def addOperation_def)
qed

section \<open>Loops and frames\<close>

lemma forEachM_preserves:
  assumes step: "\<And>x s. P s \<Longrightarrow> P (snd (f x s))"
    and start: "P s"
  shows "P (snd (forEachM f xs s))"
  using start
proof (induction xs arbitrary: s)
  case Nil
  then show ?case by simp
next
  case (Cons x xs)
  obtain r s' where fx: "f x s = (r, s')" by (cases "f x s")
  from step [OF Cons.prems, of x] fx have "P s'" by simp
  show ?case
  proof (cases r)
    case (Inl e)
    with fx \<open>P s'\<close> show ?thesis by simp
  next
    case (Inr u)
    with fx Cons.IH [OF \<open>P s'\<close>] show ?thesis by simp
  qed
qed



lemma unchangedBy_refl [simp]: "unchangedBy rid s s"
  by (simp add: unchangedBy_def)

lemma unchangedBy_trans: "unchangedBy rid s s' \<Longrightarrow> unchangedBy rid s' s'' \<Longrightarrow> unchangedBy rid s s''"
  by (simp add: unchangedBy_def)

lemma processElement_unchanged: "unchangedBy rid s (snd (processElement en rid e s))"
  by (simp add: processElement_def unchangedBy_def split: prod.splits)

lemma forEachM_processElement_unchanged:
  "unchangedBy rid s (snd (forEachM (processElement en rid) es s))"
proof (rule forEachM_preserves [where P = "unchangedBy rid s"])
  fix x s' assume "unchangedBy rid s s'"
  then show "unchangedBy rid s (snd (processElement en rid x s'))"
    using processElement_unchanged unchangedBy_trans by blast
qed simp

lemma checkAddedNode_unchanged: "unchangedBy rid s (snd (checkAddedNode en rid d nd s))"
  by (simp add: checkAddedNode_def processElement_unchanged)


section \<open>Registration: the observer and the options object\<close>

lemma scanExisting_unchanged: "unchangedBy rid s (snd (scanExisting en rid d s))"
  by (simp add: scanExisting_def forEachM_processElement_unchanged)

lemma mutationCallback_unchanged:
  assumes "observer s = Some ob"
  shows "unchangedBy (obsOwner ob) s (snd (mutationCallback en d ms s))"
proof -
  let ?rid = "obsOwner ob"
  have inner: "unchangedBy ?rid s (snd (forEachM (checkAddedNode en ?rid d) nds s'))"
    if "unchangedBy ?rid s s'" for nds s'
  proof (rule forEachM_preserves [where P = "unchangedBy ?rid s"])
    fix x t assume "unchangedBy ?rid s t"
    then show "unchangedBy ?rid s (snd (checkAddedNode en ?rid d x t))"
      using checkAddedNode_unchanged unchangedBy_trans by blast
  qed (rule that)
  have "unchangedBy ?rid s
          (snd (forEachM (\<lambda>m. forEachM (checkAddedNode en ?rid d) (addedNodes m)) ms s))"
    by (rule forEachM_preserves [where P = "unchangedBy ?rid s"]) (simp_all add: inner)
  with assms show ?thesis by (simp add: mutationCallback_def)
qed

lemma mutationCallback_no_observer:
  "observer s = None \<Longrightarrow> mutationCallback en d ms s = (Inr (), s)"
  by (simp add: mutationCallback_def)

lemma installObserver_present:
  "observer s = Some ob \<Longrightarrow> installObserver rid s = (Inr (), s)"
  by (simp add: installObserver_def)

lemma installObserver_frame:
  "nclosures (snd (installObserver rid s)) = nclosures s
   \<and> closures (snd (installObserver rid s)) = closures s
   \<and> heap (snd (installObserver rid s)) = heap s
   \<and> pipelineRuns (snd (installObserver rid s)) = pipelineRuns s
   \<and> callbackLog (snd (installObserver rid s)) = callbackLog s"
  by (simp add: installObserver_def split: option.splits)

text \<open>The state in which the scan of a new registration starts.\<close>

lemma querySelectorPerpetual_cases:
  "snd (querySelectorPerpetual en d sel options s)
     = snd (installObserver (nclosures s)
         (s\<lparr>closures := (closures s)(nclosures s := newRegistration d sel options),
            nclosures := Suc (nclosures s)\<rparr>))
   \<or> snd (querySelectorPerpetual en d sel options s)
       = snd (scanExisting en (nclosures s) d (snd (installObserver (nclosures s)
           (s\<lparr>closures := (closures s)(nclosures s := newRegistration d sel options),
              nclosures := Suc (nclosures s)\<rparr>))))"
  by (auto simp: querySelectorPerpetual_def Let_def split: prod.splits sum.splits)

lemma querySelectorPerpetual_frame:
  "heap (snd (querySelectorPerpetual en d sel options s)) = heap s
   \<and> nclosures (snd (querySelectorPerpetual en d sel options s)) = Suc (nclosures s)
   \<and> (\<forall>j. j \<noteq> nclosures s \<longrightarrow>
         closures (snd (querySelectorPerpetual en d sel options s)) j = closures s j)
   \<and> operations (closures (snd (querySelectorPerpetual en d sel options s)) (nclosures s)) = []
   \<and> matchReappearance (closures (snd (querySelectorPerpetual en d sel options s)) (nclosures s))
       = matchReappearance (newRegistration d sel options)
   \<and> selector (closures (snd (querySelectorPerpetual en d sel options s)) (nclosures s)) = sel
   \<and> target (closures (snd (querySelectorPerpetual en d sel options s)) (nclosures s))
       = target (newRegistration d sel options)"
proof -
  let ?rid = "nclosures s"
  let ?s1 = "s\<lparr>closures := (closures s)(?rid := newRegistration d sel options),
                nclosures := Suc ?rid\<rparr>"
  let ?s2 = "snd (installObserver ?rid ?s1)"
  have s2: "heap ?s2 = heap s" "nclosures ?s2 = Suc ?rid"
    "closures ?s2 = (closures s)(?rid := newRegistration d sel options)"
    using installObserver_frame [of ?rid ?s1] by simp_all
  have u: "unchangedBy ?rid ?s2 (snd (scanExisting en ?rid d ?s2))"
    by (rule scanExisting_unchanged)
  have new: "operations (newRegistration d sel options) = []"
    "selector (newRegistration d sel options) = sel"
    by (simp_all add: newRegistration_def Let_def)
  from querySelectorPerpetual_cases [of en d sel options s]
  show ?thesis
  proof
    assume "snd (querySelectorPerpetual en d sel options s) = ?s2"
    with s2 new show ?thesis by simp
  next
    assume "snd (querySelectorPerpetual en d sel options s) = snd (scanExisting en ?rid d ?s2)"
    with u s2 new show ?thesis by (simp add: unchangedBy_def)
  qed
qed

lemma querySelectorPerpetual_observer:
  "observer s = Some ob \<Longrightarrow>
     observer (snd (querySelectorPerpetual en d sel options s)) = Some ob
     \<and> observersCreated (snd (querySelectorPerpetual en d sel options s)) = observersCreated s"
  using scanExisting_unchanged
    [of "nclosures s" "s\<lparr>closures := (closures s)(nclosures s := newRegistration d sel options),
                    nclosures := Suc (nclosures s)\<rparr>" en d]
  by (auto simp: querySelectorPerpetual_def Let_def installObserver_present unchangedBy_def
      split: prod.splits sum.splits)

lemma querySelectorPerpetual_first:
  "observer s = None \<Longrightarrow>
     observer (snd (querySelectorPerpetual en d sel options s))
       = Some \<lparr>obsOwner = nclosures s,
               obsTargets = (case target (newRegistration d sel options) of
                               None \<Rightarrow> [] | Some t \<Rightarrow> [(t, True, True)])\<rparr>
     \<and> observersCreated (snd (querySelectorPerpetual en d sel options s)) = Suc (observersCreated s)"
proof -
  assume none: "observer s = None"
  let ?rid = "nclosures s"
  let ?s1 = "s\<lparr>closures := (closures s)(?rid := newRegistration d sel options),
                nclosures := Suc ?rid\<rparr>"
  let ?s2 = "snd (installObserver ?rid ?s1)"
  let ?ob = "Some \<lparr>obsOwner = ?rid,
               obsTargets = (case target (newRegistration d sel options) of
                               None \<Rightarrow> [] | Some t \<Rightarrow> [(t, True, True)])\<rparr>"
  have s2: "observer ?s2 = ?ob" "observersCreated ?s2 = Suc (observersCreated s)"
    using none by (simp_all add: installObserver_def split: option.splits)
  have u: "unchangedBy ?rid ?s2 (snd (scanExisting en ?rid d ?s2))"
    by (rule scanExisting_unchanged)
  from querySelectorPerpetual_cases [of en d sel options s]
  show ?thesis
  proof
    assume "snd (querySelectorPerpetual en d sel options s) = ?s2"
    with s2 show ?thesis by simp
  next
    assume "snd (querySelectorPerpetual en d sel options s) = snd (scanExisting en ?rid d ?s2)"
    with u s2 show ?thesis by (simp add: unchangedBy_def)
  qed
qed

lemma callHandle_frame:
  "observer (snd (callHandle h m func s)) = observer s
   \<and> observersCreated (snd (callHandle h m func s)) = observersCreated s
   \<and> nclosures (snd (callHandle h m func s)) = nclosures s
   \<and> heap (snd (callHandle h m func s)) = heap s
   \<and> pipelineRuns (snd (callHandle h m func s)) = pipelineRuns s
   \<and> callbackLog (snd (callHandle h m func s)) = callbackLog s
   \<and> (\<forall>j. j \<noteq> h \<longrightarrow> closures (snd (callHandle h m func s)) j = closures s j)
   \<and> elementInvocationMap (closures (snd (callHandle h m func s)) h)
        = elementInvocationMap (closures s h)
   \<and> matchReappearance (closures (snd (callHandle h m func s)) h)
        = matchReappearance (closures s h)
   \<and> selector (closures (snd (callHandle h m func s)) h) = selector (closures s h)"
  by (simp add: callHandle_def addOperation_def split: option.splits)

lemma step_observer:
  assumes "observer s = Some ob"
  shows "observer (step en s ev) = Some ob \<and> observersCreated (step en s ev) = observersCreated s"
proof (cases ev)
  case (Register d sel options)
  with assms querySelectorPerpetual_observer show ?thesis by simp
next
  case (ProtoRegister d this sel options)
  with assms show ?thesis
    by (cases options)
       (simp_all add: protoQuerySelectorPerpetual_def Let_def querySelectorPerpetual_observer)
next
  case (CallHandle h m func)
  with assms callHandle_frame [of h m func s] show ?thesis by simp
next
  case (Mutations d ms)
  with assms mutationCallback_unchanged [OF assms, of en d ms] show ?thesis
    by (simp add: unchangedBy_def)
qed

lemma run_observer:
  "observer s = Some ob \<Longrightarrow>
     observer (run en evs s) = Some ob \<and> observersCreated (run en evs s) = observersCreated s"
  unfolding run_def
proof (induction evs arbitrary: s)
  case Nil
  then show ?case by simp
next
  case (Cons ev evs)
  from step_observer [OF Cons.prems, of en ev]
  have "observer (step en s ev) = Some ob" "observersCreated (step en s ev) = observersCreated s"
    by simp_all
  with Cons.IH [of "step en s ev"] show ?case by simp
qed

lemma run_Cons: "run en (ev # evs) s = run en evs (step en s ev)"
  by (simp add: run_def)

text \<open>
  Claim C3. One MutationObserver exists process-wide. The first call (of the function or
  of a prototype method, for any selector) constructs it, as a closure of that call, and
  observes that call's scope root with \<^verbatim>\<open>childList\<close> and \<^verbatim>\<open>subtree\<close>; whatever happens
  afterwards (further calls with any selector or root, chained operations, mutation
  batches), the observer stays that one, no second one is constructed and no further
  \<^verbatim>\<open>observe\<close> call is made, so only the first call's root is watched. (When the first
  call has no root, the document having no body, \<^verbatim>\<open>observe\<close> throws and nothing is
  watched.)
\<close>

theorem single_shared_observer:
  "observer (run en (Register d sel options # evs) initState)
     = Some \<lparr>obsOwner = 0,
             obsTargets = (case target (newRegistration d sel options) of
                             None \<Rightarrow> [] | Some t \<Rightarrow> [(t, True, True)])\<rparr>
   \<and> observersCreated (run en (Register d sel options # evs) initState) = 1
   \<and> observer (run en (ProtoRegister d this sel ref # evs) initState)
       = Some \<lparr>obsOwner = 0, obsTargets = [(this, True, True)]\<rparr>
   \<and> observersCreated (run en (ProtoRegister d this sel ref # evs) initState) = 1"
proof -
  have init: "observer initState = None" "nclosures initState = 0" "observersCreated initState = 0"
    by (simp_all add: initState_def)
  let ?s1 = "step en initState (Register d sel options)"
  have a: "observer ?s1 = Some \<lparr>obsOwner = 0,
             obsTargets = (case target (newRegistration d sel options) of
                             None \<Rightarrow> [] | Some t \<Rightarrow> [(t, True, True)])\<rparr>"
     "observersCreated ?s1 = 1"
    using querySelectorPerpetual_first [OF init(1), of en d sel options] init by simp_all
  let ?s2 = "step en initState (ProtoRegister d this sel ref)"
  have b: "observer ?s2 = Some \<lparr>obsOwner = 0, obsTargets = [(this, True, True)]\<rparr>
           \<and> observersCreated ?s2 = 1"
  proof (cases ref)
    case None
    with querySelectorPerpetual_first [OF init(1), of en d sel
        "Some (emptyObject\<lparr>optRootElement := Some this\<rparr>)"] init
    show ?thesis by (simp add: protoQuerySelectorPerpetual_def newRegistration_def)
  next
    case (Some a)
    let ?h = "initState\<lparr>heap := (heap initState)(a := (heap initState a)\<lparr>optRootElement := Some this\<rparr>)\<rparr>"
    have "observer ?h = None" "nclosures ?h = 0" "observersCreated ?h = 0"
      by (simp_all add: init)
    with Some querySelectorPerpetual_first [of ?h en d sel "Some (heap ?h a)"]
    show ?thesis by (simp add: protoQuerySelectorPerpetual_def newRegistration_def Let_def)
  qed
  from run_observer [OF a(1), of en evs] a(2) run_observer [of ?s2 _ en evs] b
  show ?thesis by (simp add: run_Cons)
qed

text \<open>
  Claim C10. The prototype methods write into the caller's options object: after the
  call, whether it returned or threw, the object at the address the caller passed has
  its \<^verbatim>\<open>rootElement\<close> set to the receiver (its other properties and all other objects are
  as before), and the registration uses the receiver as its root. Without an options
  argument, and in a direct call of the function, no object of the caller is written.
\<close>

theorem proto_binding_writes_options:
  "heap (snd (protoQuerySelectorPerpetual en d this sel (Some a) s))
     = (heap s)(a := (heap s a)\<lparr>optRootElement := Some this\<rparr>)
   \<and> heap (snd (protoQuerySelectorPerpetual en d this sel None s)) = heap s
   \<and> heap (snd (querySelectorPerpetual en d sel options s)) = heap s
   \<and> target (closures (snd (protoQuerySelectorPerpetual en d this sel (Some a) s)) (nclosures s))
       = Some this"
proof -
  let ?obj = "(heap s a)\<lparr>optRootElement := Some this\<rparr>"
  let ?s1 = "s\<lparr>heap := (heap s)(a := ?obj)\<rparr>"
  have call: "protoQuerySelectorPerpetual en d this sel (Some a) s
                = querySelectorPerpetual en d sel (Some ?obj) ?s1"
    by (simp add: protoQuerySelectorPerpetual_def Let_def)
  have tgt: "target (newRegistration d sel (Some ?obj)) = Some this"
    by (simp add: newRegistration_def)
  from querySelectorPerpetual_frame [of en d sel "Some ?obj" ?s1] call tgt
  have "heap (snd (protoQuerySelectorPerpetual en d this sel (Some a) s)) = (heap s)(a := ?obj)"
    and "target (closures (snd (protoQuerySelectorPerpetual en d this sel (Some a) s)) (nclosures s))
           = Some this"
    by simp_all
  moreover have "heap (snd (protoQuerySelectorPerpetual en d this sel None s)) = heap s"
    using querySelectorPerpetual_frame
      [of en d sel "Some (emptyObject\<lparr>optRootElement := Some this\<rparr>)" s]
    by (simp add: protoQuerySelectorPerpetual_def)
  moreover have "heap (snd (querySelectorPerpetual en d sel options s)) = heap s"
    using querySelectorPerpetual_frame [of en d sel options s] by simp
  ultimately show ?thesis by simp
qed

lemmas ev_defs = run_def callHandle_def handleMethod_def addOperation_def querySelectorPerpetual_def
       installObserver_def scanExisting_def newRegistration_def emptyObject_def initState_def
       itemsDom_def itemsEnv_def querySelectorAll_def elementsIn_def processElement_def Let_def
       mutationCallback_def checkAddedNode_def ELEMENT_NODE_def processedBy_def applyOperations_def
       protoQuerySelectorPerpetual_def scopedQuery_def

lemma forEachM_preserves_in:
  assumes step: "\<And>x s. x \<in> set xs \<Longrightarrow> P s \<Longrightarrow> P (snd (f x s))"
    and start: "P s"
  shows "P (snd (forEachM f xs s))"
  using assms
proof (induction xs arbitrary: s)
  case Nil
  then show ?case by simp
next
  case (Cons x xs)
  obtain r s' where fx: "f x s = (r, s')" by (cases "f x s")
  from Cons.prems(1) [of x s] Cons.prems(2) fx have "P s'" by simp
  show ?case
  proof (cases r)
    case (Inl e)
    with fx \<open>P s'\<close> show ?thesis by simp
  next
    case (Inr u)
    have "P (snd (forEachM f xs s'))"
      by (rule Cons.IH) (simp_all add: Cons.prems(1) \<open>P s'\<close>)
    with fx Inr show ?thesis by simp
  qed
qed

lemma forEachM_single: "snd (forEachM f [x] s) = snd (f x s)"
  by (simp split: prod.splits sum.splits)

section \<open>Independent registrations\<close>

lemma scan_marks_only_scanned:
  "elementInvocationMap (closures (snd (forEachM (processElement en rid) es s)) rid) e = Some True
     \<Longrightarrow> e \<in> set es \<or> elementInvocationMap (closures s rid) e = Some True"
proof -
  let ?P = "\<lambda>s' :: state. elementInvocationMap (closures s' rid) e = Some True
              \<longrightarrow> e \<in> set es \<or> elementInvocationMap (closures s rid) e = Some True"
  have "?P (snd (forEachM (processElement en rid) es s))"
  proof (rule forEachM_preserves_in [where P = ?P])
    fix x s' assume "x \<in> set es" "?P s'"
    then show "?P (snd (processElement en rid x s'))"
      by (auto simp: processElement_def split: prod.splits if_splits)
  qed simp
  then show "elementInvocationMap (closures (snd (forEachM (processElement en rid) es s)) rid) e = Some True
     \<Longrightarrow> e \<in> set es \<or> elementInvocationMap (closures s rid) e = Some True"
    by simp
qed

lemma new_seen_set:
  assumes "elementInvocationMap (closures (snd (querySelectorPerpetual en d sel options s)) (nclosures s)) e = Some True"
  shows "e \<in> set (querySelectorAll d sel)"
proof -
  let ?rid = "nclosures s"
  let ?s1 = "s\<lparr>closures := (closures s)(?rid := newRegistration d sel options),
                nclosures := Suc ?rid\<rparr>"
  let ?s2 = "snd (installObserver ?rid ?s1)"
  have s2: "closures ?s2 = (closures s)(?rid := newRegistration d sel options)"
    using installObserver_frame [of ?rid ?s1] by simp
  have empty: "elementInvocationMap (closures ?s2 ?rid) = Map.empty"
    "selector (closures ?s2 ?rid) = sel"
    unfolding s2 by (simp_all add: newRegistration_def Let_def)
  from querySelectorPerpetual_cases [of en d sel options s]
  show ?thesis
  proof
    assume "snd (querySelectorPerpetual en d sel options s) = ?s2"
    with assms empty show ?thesis by simp
  next
    assume eq: "snd (querySelectorPerpetual en d sel options s) = snd (scanExisting en ?rid d ?s2)"
    show ?thesis
    proof (cases "matchExisting (closures ?s2 ?rid) \<and> selValid d sel")
      case True
      then have "scanExisting en ?rid d ?s2
                   = forEachM (processElement en ?rid) (querySelectorAll d sel) ?s2"
        by (simp add: scanExisting_def empty)
      with eq assms scan_marks_only_scanned [of en ?rid "querySelectorAll d sel" ?s2 e] empty
      show ?thesis by simp
    next
      case False
      then have "scanExisting en ?rid d ?s2 = (Inr (), ?s2) \<or> scanExisting en ?rid d ?s2 = (Inl SyntaxError, ?s2)"
        by (auto simp: scanExisting_def empty)
      with eq assms empty show ?thesis by auto
    qed
  qed
qed

text \<open>
  Claim C9. Each call creates its own seen-set and its own empty operations array: the
  new registration has no operation (also after its scan) and has marked seen nothing
  but elements its own scan found; creating it leaves every other registration as it
  was. Calling a method of a handle changes the operations of that handle's
  registration only, and no seen-set. Processing an element for one registration, and a
  whole mutation batch (which the observer's callback processes for the registration
  that created the observer), leave every other registration as it was, so nothing is
  marked seen for another registration.
\<close>

theorem registrations_independent:
  "operations (closures (snd (querySelectorPerpetual en d sel options s)) (nclosures s)) = []
   \<and> (\<forall>e. elementInvocationMap (closures (snd (querySelectorPerpetual en d sel options s)) (nclosures s)) e = Some True
          \<longrightarrow> e \<in> set (querySelectorAll d sel))
   \<and> (\<forall>j. j \<noteq> nclosures s \<longrightarrow>
          closures (snd (querySelectorPerpetual en d sel options s)) j = closures s j)
   \<and> (\<forall>j. j \<noteq> h \<longrightarrow> closures (snd (callHandle h m func s)) j = closures s j)
   \<and> elementInvocationMap (closures (snd (callHandle h m func s)) h) = elementInvocationMap (closures s h)
   \<and> (\<forall>j. j \<noteq> rid \<longrightarrow> closures (snd (processElement en rid x s)) j = closures s j)
   \<and> (\<forall>j ob. observer s = Some ob \<longrightarrow> j \<noteq> obsOwner ob \<longrightarrow>
          closures (snd (mutationCallback en d ms s)) j = closures s j)"
proof -
  have "\<forall>j ob. observer s = Some ob \<longrightarrow> j \<noteq> obsOwner ob \<longrightarrow>
          closures (snd (mutationCallback en d ms s)) j = closures s j"
    using mutationCallback_unchanged [of s _ en d ms] by (simp add: unchangedBy_def)
  moreover have "\<forall>j. j \<noteq> rid \<longrightarrow> closures (snd (processElement en rid x s)) j = closures s j"
    using processElement_unchanged [of rid s en x] by (simp add: unchangedBy_def)
  ultimately show ?thesis
    using querySelectorPerpetual_frame [of en d sel options s] callHandle_frame [of h m func s]
      new_seen_set [of en d sel options s]
    by simp
qed

text \<open>
  With two registrations of \<^verbatim>\<open>.item\<close>: \<^verbatim>\<open>forEach\<close> on the first handle leaves the second
  registration without operations, and a batch adding element 3 marks it seen for the
  first registration and leaves the second as it was.
\<close>

theorem registrations_independent_witness:
  "closures (snd (callHandle 0 ''forEach'' (Function 0 1) twoRegistrations)) 1 = closures twoRegistrations 1
   \<and> operations (closures (snd (callHandle 0 ''forEach'' (Function 0 1) twoRegistrations)) 1) = []
   \<and> operations (closures (snd (callHandle 0 ''forEach'' (Function 0 1) twoRegistrations)) 0) = [(OpForEach, Function 0 1)]
   \<and> closures (snd (mutationCallback itemsEnv itemsDom
         [\<lparr>addedNodes = [Element 3 [Text 23]], removedNodes = []\<rparr>] twoRegistrations)) 1
       = closures twoRegistrations 1
   \<and> elementInvocationMap (closures (snd (mutationCallback itemsEnv itemsDom
         [\<lparr>addedNodes = [Element 3 [Text 23]], removedNodes = []\<rparr>] twoRegistrations)) 0) 3 = Some True
   \<and> elementInvocationMap (closures twoRegistrations 1) 3 = None"
proof -
  have obs: "observer twoRegistrations = Some itemsObserver"
    by (simp add: twoRegistrations_def itemsObserver_def ev_defs)
  have owner: "obsOwner itemsObserver = 0" by (simp add: itemsObserver_def)
  have a: "operations (closures twoRegistrations 1) = []"
    "elementInvocationMap (closures twoRegistrations 1) 3 = None"
    by (simp_all add: twoRegistrations_def ev_defs)
  have b: "operations (closures (snd (callHandle 0 ''forEach'' (Function 0 1) twoRegistrations)) 0) = [(OpForEach, Function 0 1)]"
    "elementInvocationMap (closures (snd (mutationCallback itemsEnv itemsDom
         [\<lparr>addedNodes = [Element 3 [Text 23]], removedNodes = []\<rparr>] twoRegistrations)) 0) 3 = Some True"
    by (simp_all add: twoRegistrations_def ev_defs)
  from registrations_independent [of itemsEnv itemsDom "''.item''" None twoRegistrations 0 "''forEach''" "Function 0 1" 0 3
      "[\<lparr>addedNodes = [Element 3 [Text 23]], removedNodes = []\<rparr>]"] obs owner a b
  show ?thesis by simp
qed

section \<open>The seen-set\<close>

lemma wellFormed_init: "wellFormed initState"
  by (simp add: wellFormed_def initState_def)

lemma querySelectorPerpetual_wellFormed:
  assumes "wellFormed s"
  shows "wellFormed (snd (querySelectorPerpetual en d sel options s))"
proof (cases "observer s")
  case None
  from querySelectorPerpetual_first [OF None, of en d sel options]
    querySelectorPerpetual_frame [of en d sel options s] assms
  show ?thesis by (simp add: wellFormed_def)
next
  case (Some ob)
  from querySelectorPerpetual_observer [OF Some, of en d sel options]
    querySelectorPerpetual_frame [of en d sel options s] assms Some
  show ?thesis by (auto simp: wellFormed_def)
qed

lemma step_wellFormed:
  assumes "wellFormed s"
  shows "wellFormed (step en s ev)"
proof (cases ev)
  case (Register d sel options)
  with assms querySelectorPerpetual_wellFormed show ?thesis by simp
next
  case (ProtoRegister d this sel options)
  have "wellFormed (s\<lparr>heap := hp\<rparr>)" for hp
    using assms by (simp add: wellFormed_def)
  with ProtoRegister querySelectorPerpetual_wellFormed show ?thesis
    by (cases options) (simp_all add: protoQuerySelectorPerpetual_def Let_def assms)
next
  case (CallHandle h m func)
  show ?thesis
  proof (cases "h < nclosures s")
    case True
    with CallHandle assms callHandle_frame [of h m func s] show ?thesis
      by (auto simp: wellFormed_def)
  next
    case False
    with CallHandle assms show ?thesis by simp
  qed
next
  case (Mutations d ms)
  show ?thesis
  proof (cases "observer s")
    case None
    with Mutations assms show ?thesis by (simp add: mutationCallback_no_observer)
  next
    case (Some ob)
    from mutationCallback_unchanged [OF Some, of en d ms] Some assms Mutations
    show ?thesis by (auto simp: wellFormed_def unchangedBy_def)
  qed
qed

lemma run_wellFormed: "wellFormed s \<Longrightarrow> wellFormed (run en evs s)"
  unfolding run_def by (induction evs arbitrary: s) (simp_all add: step_wellFormed)

lemma processElement_keeps:
  "keeps rid e b c s \<Longrightarrow> keeps rid e b c (snd (processElement en rid' x s))"
  by (auto simp: keeps_def processElement_def split: prod.splits)

lemma forEachM_processElement_keeps:
  "keeps rid e b c s \<Longrightarrow> keeps rid e b c (snd (forEachM (processElement en rid') es s))"
  by (rule forEachM_preserves [where P = "keeps rid e b c"]) (simp_all add: processElement_keeps)

lemma checkAddedNode_keeps:
  "keeps rid e b c s \<Longrightarrow> keeps rid e b c (snd (checkAddedNode en rid' d nd s))"
  by (simp add: checkAddedNode_def processElement_keeps)

lemma mutationCallback_keeps:
  assumes "keeps rid e b c s"
  shows "keeps rid e b c (snd (mutationCallback en d ms s))"
proof (cases "observer s")
  case None
  with assms show ?thesis by (simp add: mutationCallback_no_observer)
next
  case (Some ob)
  have inner: "keeps rid e b c (snd (forEachM (checkAddedNode en (obsOwner ob) d) nds s'))"
    if "keeps rid e b c s'" for nds s'
    by (rule forEachM_preserves [where P = "keeps rid e b c"]) (simp_all add: checkAddedNode_keeps that)
  have "keeps rid e b c
          (snd (forEachM (\<lambda>m. forEachM (checkAddedNode en (obsOwner ob) d) (addedNodes m)) ms s))"
    by (rule forEachM_preserves [where P = "keeps rid e b c"]) (simp_all add: inner assms)
  with Some show ?thesis by (simp add: mutationCallback_def)
qed

lemma querySelectorPerpetual_keeps:
  assumes k: "keeps rid e b c s" and rid: "rid \<noteq> nclosures s"
  shows "keeps rid e b c (snd (querySelectorPerpetual en d sel options s))"
proof -
  let ?n = "nclosures s"
  let ?s1 = "s\<lparr>closures := (closures s)(?n := newRegistration d sel options),
                nclosures := Suc ?n\<rparr>"
  let ?s2 = "snd (installObserver ?n ?s1)"
  have "keeps rid e b c ?s2"
    using k rid installObserver_frame [of ?n ?s1] by (simp add: keeps_def)
  moreover from this have "keeps rid e b c (snd (scanExisting en ?n d ?s2))"
    by (simp add: scanExisting_def forEachM_processElement_keeps)
  ultimately show ?thesis
    using querySelectorPerpetual_cases [of en d sel options s] by auto
qed

lemma step_keeps:
  assumes wf: "wellFormed s" and k: "keeps rid e b c s"
  shows "keeps rid e b c (step en s ev)"
proof -
  have "closures s rid \<noteq> noRegistration"
    using k by (auto simp: keeps_def noRegistration_def)
  with wf have rid: "rid \<noteq> nclosures s"
    by (auto simp: wellFormed_def)
  show ?thesis
  proof (cases ev)
    case (Register d sel options)
    with k rid querySelectorPerpetual_keeps show ?thesis by simp
  next
    case (ProtoRegister d this sel options)
    have "keeps rid e b c (s\<lparr>heap := hp\<rparr>)" for hp
      using k by (simp add: keeps_def)
    with ProtoRegister k rid querySelectorPerpetual_keeps show ?thesis
      by (cases options) (simp_all add: protoQuerySelectorPerpetual_def Let_def)
  next
    case (CallHandle h m func)
    with k callHandle_frame [of h m func s] show ?thesis
      by (cases "rid = h") (auto simp: keeps_def)
  next
    case (Mutations d ms)
    with k mutationCallback_keeps show ?thesis by simp
  qed
qed

lemma run_keeps:
  "wellFormed s \<Longrightarrow> keeps rid e b c s \<Longrightarrow> keeps rid e b c (run en evs s)"
  unfolding run_def
  by (induction evs arbitrary: s) (simp_all add: step_wellFormed step_keeps)

text \<open>
  Claim C5. In any state that a run reaches, an element marked seen for a registration
  stays marked after any further events (further calls, chained operations, mutation
  batches); and when that registration's \<open>matchReappearance\<close> is false, none of these
  events passes the element through that registration's pipeline again: the number of
  pipeline runs of the registration on the element does not change.
\<close>

theorem seen_element_not_reprocessed:
  assumes seen: "elementInvocationMap (closures (run en evs initState) rid) e = Some True"
  shows "elementInvocationMap (closures (run en evs' (run en evs initState)) rid) e = Some True
         \<and> (\<not> matchReappearance (closures (run en evs initState) rid) \<longrightarrow>
              count_list (pipelineRuns (run en evs' (run en evs initState))) (rid, e)
                = count_list (pipelineRuns (run en evs initState)) (rid, e))"
proof -
  let ?s = "run en evs initState"
  have wf: "wellFormed ?s"
    by (rule run_wellFormed [OF wellFormed_init])
  have "keeps rid e (matchReappearance (closures ?s rid)) (count_list (pipelineRuns ?s) (rid, e)) ?s"
    using seen by (simp add: keeps_def)
  from run_keeps [OF wf this, of en evs'] show ?thesis
    by (simp add: keeps_def)
qed

text \<open>
  Element 1 is seen by the scan of a registration of \<^verbatim>\<open>.item\<close>; re-inserting it does not
  run the pipeline on it again.
\<close>

theorem seen_element_not_reprocessed_witness:
  "elementInvocationMap (closures (run itemsEnv [Register itemsDom ''.item'' None] initState) 0) 1 = Some True
   \<and> count_list (pipelineRuns (run itemsEnv
        [Mutations itemsDom [\<lparr>addedNodes = [Element 1 [Text 21]], removedNodes = []\<rparr>]]
        (run itemsEnv [Register itemsDom ''.item'' None] initState))) (0, 1) = 1"
proof -
  have seen: "elementInvocationMap (closures (run itemsEnv [Register itemsDom ''.item'' None] initState) 0) 1 = Some True"
    by (simp add: ev_defs)
  have re: "\<not> matchReappearance (closures (run itemsEnv [Register itemsDom ''.item'' None] initState) 0)"
    by (simp add: ev_defs)
  have cnt: "count_list (pipelineRuns (run itemsEnv [Register itemsDom ''.item'' None] initState)) (0, 1) = 1"
    by (simp add: ev_defs)
  from seen_element_not_reprocessed [OF seen, of "[Mutations itemsDom [\<lparr>addedNodes = [Element 1 [Text 21]], removedNodes = []\<rparr>]]"]
    seen re cnt
  show ?thesis by simp
qed

section \<open>The scan of existing elements\<close>

lemma scan_all:
  assumes "operations (closures s rid) = []"
    and "matchReappearance (closures s rid)
         \<or> (distinct es \<and> (\<forall>e\<in>set es. elementInvocationMap (closures s rid) e \<noteq> Some True))"
  shows "fst (forEachM (processElement en rid) es s) = Inr ()
         \<and> pipelineRuns (snd (forEachM (processElement en rid) es s))
             = pipelineRuns s @ map (Pair rid) es
         \<and> elementInvocationMap (closures (snd (forEachM (processElement en rid) es s)) rid)
             = (\<lambda>e. if e \<in> set es then Some True else elementInvocationMap (closures s rid) e)"
  using assms
proof (induction es arbitrary: s)
  case Nil
  then show ?case by simp
next
  case (Cons x es)
  let ?s1 = "s\<lparr>closures := (closures s)(rid :=
                      (closures s rid)\<lparr>elementInvocationMap :=
                         (elementInvocationMap (closures s rid))(x \<mapsto> True)\<rparr>),
                    pipelineRuns := pipelineRuns s @ [(rid, x)],
                    callbackLog := callbackLog s @ []\<rparr>"
  have pe: "processElement en rid x s = (Inr (), ?s1)"
    using Cons.prems by (auto simp: processElement_def)
  have ops1: "operations (closures ?s1 rid) = []"
    using Cons.prems(1) by simp
  have cond1: "matchReappearance (closures ?s1 rid)
         \<or> (distinct es \<and> (\<forall>e\<in>set es. elementInvocationMap (closures ?s1 rid) e \<noteq> Some True))"
    using Cons.prems(2) by auto
  from Cons.IH [OF ops1 cond1] pe show ?case
    by (auto simp: fun_eq_iff)
qed

text \<open>
  Claim C4, as amended. The claim says the scan queries the scope root and leaves out
  elements outside it. The code calls \<^verbatim>\<open>document.querySelectorAll\<close>: when \<open>matchExisting\<close> is
  true (and the selector parses, the observer could be set up and element identities in
  the document are distinct), the call returns the handle after passing through the
  pipeline every element of the whole document that matches the selector, in document
  order, whatever the root is, and these are exactly the elements marked seen.
\<close>

theorem existing_scan_queries_document:
  assumes ex: "matchExisting (newRegistration d sel options)"
    and valid: "selValid d sel"
    and obs: "observer s \<noteq> None \<or> target (newRegistration d sel options) \<noteq> None"
    and dist: "distinct (elementsIn (docChildren d))"
  shows "fst (querySelectorPerpetual en d sel options s) = Inr (nclosures s)
         \<and> pipelineRuns (snd (querySelectorPerpetual en d sel options s))
             = pipelineRuns s @ map (Pair (nclosures s)) (querySelectorAll d sel)
         \<and> elementInvocationMap (closures (snd (querySelectorPerpetual en d sel options s)) (nclosures s))
             = (\<lambda>e. if e \<in> set (querySelectorAll d sel) then Some True else None)"
proof -
  let ?rid = "nclosures s"
  let ?new = "newRegistration d sel options"
  let ?s1 = "s\<lparr>closures := (closures s)(?rid := ?new), nclosures := Suc ?rid\<rparr>"
  have new: "operations ?new = []" "selector ?new = sel" "elementInvocationMap ?new = Map.empty"
    by (simp_all add: newRegistration_def Let_def)
  have inst: "fst (installObserver ?rid ?s1) = Inr ()"
    using obs by (auto simp: installObserver_def split: option.splits)
  let ?s2 = "snd (installObserver ?rid ?s1)"
  have s2: "closures ?s2 = (closures s)(?rid := ?new)" "pipelineRuns ?s2 = pipelineRuns s"
    using installObserver_frame [of ?rid ?s1] by simp_all
  have "distinct (querySelectorAll d sel)"
    using dist by (simp add: querySelectorAll_def)
  then have loop: "fst (forEachM (processElement en ?rid) (querySelectorAll d sel) ?s2) = Inr ()
         \<and> pipelineRuns (snd (forEachM (processElement en ?rid) (querySelectorAll d sel) ?s2))
             = pipelineRuns ?s2 @ map (Pair ?rid) (querySelectorAll d sel)
         \<and> elementInvocationMap (closures (snd (forEachM (processElement en ?rid) (querySelectorAll d sel) ?s2)) ?rid)
             = (\<lambda>e. if e \<in> set (querySelectorAll d sel) then Some True
                     else elementInvocationMap (closures ?s2 ?rid) e)"
    by (intro scan_all) (simp_all add: s2 new)
  have scan: "scanExisting en ?rid d ?s2 = forEachM (processElement en ?rid) (querySelectorAll d sel) ?s2"
    using ex valid by (simp add: scanExisting_def s2 new)
  obtain v b where i: "installObserver ?rid ?s1 = (Inr v, b)"
    using inst by (cases "installObserver ?rid ?s1") auto
  have sb: "?s2 = b" using i by simp
  note loopb = loop [unfolded sb]
  obtain r s3 where l: "forEachM (processElement en ?rid) (querySelectorAll d sel) b = (r, s3)"
    by (cases "forEachM (processElement en ?rid) (querySelectorAll d sel) b")
  from loopb l have r: "r = Inr ()" by simp
  have "querySelectorPerpetual en d sel options s = (Inr ?rid, s3)"
    using scan [unfolded sb] i l r by (simp add: querySelectorPerpetual_def Let_def)
  moreover have "elementInvocationMap (closures b ?rid) = Map.empty"
    using s2 [unfolded sb] by (simp add: new)
  moreover have "pipelineRuns b = pipelineRuns s"
    using s2 [unfolded sb] by simp
  ultimately show ?thesis
    using loopb l by (simp cong: if_cong)
qed

text \<open>
  With element 1 as the root, the scan still processes elements 1 and 2.
\<close>

theorem existing_scan_queries_document_witness:
  "matchExisting (newRegistration itemsDom ''.item'' (Some (emptyObject\<lparr>optRootElement := Some (AnElement 1)\<rparr>)))
   \<and> selValid itemsDom ''.item''
   \<and> distinct (elementsIn (docChildren itemsDom))
   \<and> fst (querySelectorPerpetual itemsEnv itemsDom ''.item''
            (Some (emptyObject\<lparr>optRootElement := Some (AnElement 1)\<rparr>)) initState) = Inr 0
   \<and> pipelineRuns (snd (querySelectorPerpetual itemsEnv itemsDom ''.item''
            (Some (emptyObject\<lparr>optRootElement := Some (AnElement 1)\<rparr>)) initState)) = [(0, 1), (0, 2)]"
proof -
  let ?o = "Some (emptyObject\<lparr>optRootElement := Some (AnElement 1)\<rparr>)"
  have a: "matchExisting (newRegistration itemsDom ''.item'' ?o)"
    by (simp add: newRegistration_def emptyObject_def)
  have b: "selValid itemsDom ''.item''" by (simp add: itemsDom_def)
  have c: "observer initState \<noteq> None \<or> target (newRegistration itemsDom ''.item'' ?o) \<noteq> None"
    by (simp add: newRegistration_def emptyObject_def)
  have d: "distinct (elementsIn (docChildren itemsDom))"
    by (simp add: itemsDom_def elementsIn_def)
  have q: "querySelectorAll itemsDom ''.item'' = [1, 2]"
    by (simp add: querySelectorAll_def itemsDom_def elementsIn_def)
  from existing_scan_queries_document [OF a b c d, of itemsEnv] a b d q show ?thesis
    by (simp add: initState_def)
qed

text \<open>
  The claim of C4 fails: called on element 1, which has no element below it, the scan
  processes elements 1 and 2, neither of them under the scope root.
\<close>

theorem existing_scan_ignores_root:
  "processedBy 0 (snd (protoQuerySelectorPerpetual itemsEnv itemsDom (AnElement 1) ''.item'' None initState)) = [1, 2]
   \<and> scopedQuery itemsDom (AnElement 1) ''.item'' = []
   \<and> target (closures (snd (protoQuerySelectorPerpetual itemsEnv itemsDom (AnElement 1) ''.item'' None initState)) 0) = Some (AnElement 1)
   \<and> processedBy 0 (snd (protoQuerySelectorPerpetual itemsEnv itemsDom (AnElement 1) ''.item'' None initState))
       \<noteq> scopedQuery itemsDom (AnElement 1) ''.item''"
  by (simp add: ev_defs)

section \<open>Mutation batches\<close>












lemma notesState_facts:
  "observer notesState = Some itemsObserver"
  "selector (closures notesState 0) = ''.item''"
  "selector (closures notesState 1) = ''.note''"
  by (simp_all add: notesState_def itemsObserver_def notesDom_def ev_defs)












end
